theory Spec2Isabelle
  imports Main
begin

section \<open>The transaction thread of ydn-db (src/ydn/db/tr/thread.js)\<close>

text \<open>
  The development embeds the base class \<open>ydn.db.tr.Thread\<close>. A thread is a JavaScript
  object whose methods mutate its fields, allocate objects, schedule a timer and call
  collaborators (the generator, the initiating request, a transaction handle). The
  embedding threads a \<open>world\<close> record through every method: the thread's fields, the
  heap of objects that values refer to, the requests created so far, the queue of
  \<open>setTimeout\<close> tasks, the callbacks waiting for a transaction to become active, and the
  list of calls made to collaborators, in the order they were made. An exception is a
  value \<open>Inl e\<close>; in every method of the source the \<open>throw\<close> comes before the first
  assignment to a field of the thread. The source marks private members with a trailing
  underscore (\<open>tx_no_\<close>, \<open>sendNext_\<close>); the names here drop it.
\<close>

subsection \<open>Values and objects\<close>

type_synonym addr = nat

text \<open>
  JavaScript values as far as the thread looks at them: primitives, and references to
  objects. Two references are the same object exactly when their addresses are equal.
\<close>

datatype val = Undefined | Null | Bool bool | Num int | Str string | Ref addr

text \<open>
  An object records whether \<open>Error.prototype\<close> is on its prototype chain (what
  \<open>instanceof Error\<close> tests) and its own properties.
\<close>

record obj =
  is_Error :: bool
  props :: "string \<rightharpoonup> val"

type_synonym heap = "obj list"

definition instanceof_Error :: "heap \<Rightarrow> val \<Rightarrow> bool" where
  "instanceof_Error h v =
     (case v of Ref a \<Rightarrow> a < length h \<and> is_Error (h ! a) | _ \<Rightarrow> False)"

text \<open>\<open>new Error()\<close>: a fresh object, at the first unused address, with no own property set.\<close>

definition new_Error :: "heap \<Rightarrow> heap \<times> addr" where
  "new_Error h = (h @ [\<lparr>is_Error = True, props = Map.empty\<rparr>], length h)"

text \<open>\<open>o[k] = v\<close> on the object at address \<open>a\<close>.\<close>

definition set_prop :: "heap \<Rightarrow> addr \<Rightarrow> string \<Rightarrow> val \<Rightarrow> heap" where
  "set_prop h a k v = (if a < length h then h[a := (h ! a)\<lparr>props := (props (h ! a))(k \<mapsto> v)\<rparr>] else h)"

text \<open>\<open>v[k]\<close> for a value \<open>v\<close>: the property of the object it refers to, if any.\<close>

definition get_prop :: "heap \<Rightarrow> val \<Rightarrow> string \<Rightarrow> val option" where
  "get_prop h v k = (case v of Ref a \<Rightarrow> (if a < length h then props (h ! a) k else None) | _ \<Rightarrow> None)"

subsection \<open>Enumerations and errors\<close>

text \<open>\<open>ydn.db.tr.Thread.Policy\<close>.\<close>

datatype Policy = MULTI | REPEAT | ALL | ATOMIC | SINGLE

text \<open>
  Modelled from the spec: \<open>ydn.db.base.TransactionMode\<close> is not among the sources; the
  access mode of a scope is read-only, read-write or schema-change.
\<close>

datatype TransactionMode = READ_ONLY | READ_WRITE | VERSION_CHANGE

text \<open>
  Modelled from the spec: \<open>ydn.db.base.TxEventTypes\<close> is not among the sources. The thread
  compares an event type with \<open>COMPLETE\<close> and \<open>ABORT\<close> only; every other value is
  \<open>OTHER\<close>.
\<close>

datatype TxEventTypes = COMPLETE | ABORT | OTHER string

text \<open>
  The exceptions the source throws, with the messages it gives them; \<open>TypeError\<close> is a
  call on \<open>undefined\<close> or \<open>null\<close>. The last two belong to the model of requests below.
\<close>

datatype error =
    AssertionError string
  | InvalidOperationException string
  | NotSupportedException
  | InvalidStateError string
  | TypeError
  | AlreadySettled
  | NoSuchRequest

subsection \<open>The thread\<close>

type_synonym gen_id = nat
type_synonym req_id = nat
type_synonym storage = nat
type_synonym request_method = string

text \<open>
  The field \<open>generator_\<close> is declared without a value, so it is \<open>undefined\<close> until
  \<open>setGenerator\<close> stores a function in it; \<open>commit\<close> tells \<open>undefined\<close> from \<open>null\<close>.
\<close>

datatype generator_slot = GenUndefined | GenNull | GenObj gen_id

record thread =
  storage :: storage
  q_no :: nat
  tx_no :: nat
  r_no :: nat
  scope_store_names :: "string list option"
  scope_mode :: "TransactionMode option"
  policy :: Policy
  max_tx_no :: nat
  generator :: generator_slot
  gen_req :: "req_id option"
  break_tx :: bool

text \<open>The constructor; an optional argument that is left out is \<open>None\<close>.\<close>

definition Thread ::
  "storage \<Rightarrow> nat \<Rightarrow> Policy option \<Rightarrow> string list option \<Rightarrow> TransactionMode option \<Rightarrow>
   nat option \<Rightarrow> thread" where
  "Thread st ptx_no opt_policy opt_store_names opt_mode opt_max_tx_no =
     \<lparr>storage = st,
      q_no = ptx_no,
      tx_no = 0,
      r_no = 0,
      scope_store_names = opt_store_names,
      scope_mode = opt_mode,
      policy = (case opt_policy of Some p \<Rightarrow> p | None \<Rightarrow> SINGLE),
      max_tx_no = (case opt_max_tx_no of Some n \<Rightarrow> n | None \<Rightarrow> 0),
      generator = GenUndefined,
      gen_req = None,
      break_tx = False\<rparr>"

subsection \<open>Calls to collaborators, deferred work and the world\<close>

text \<open>The handler \<open>sendNext_\<close> passes to \<open>processTx\<close>: the method \<open>onGenTxCommitted_\<close>.\<close>

datatype tx_handler = Handler_onGenTxCommitted

text \<open>
  The calls the thread makes to objects it does not own: resuming the generator,
  resolving the initiating request, and (made by \<open>processTx\<close>) opening a transaction.
\<close>

datatype event =
    GenNext gen_id val
  | SetDbValue req_id nat bool
  | OpenTx "string list option" "TransactionMode option" tx_handler

text \<open>The function \<open>sendNext_\<close> hands to \<open>setTimeout\<close>, closed over the value \<open>x\<close>.\<close>

datatype task = ReopenTx val

text \<open>The function the task hands to \<open>processTx\<close>, closed over the same \<open>x\<close>.\<close>

datatype tx_fn = ResumeFn val

text \<open>The pair of callbacks \<open>request\<close> adds to the request it creates, bound to the thread.\<close>

datatype listener = ThreadCallbacks

datatype outcome = Success val | Failure val

text \<open>
  Modelled from the spec: \<open>ydn.db.Request\<close>, the pending operation, is not among the
  sources. It carries a method tag, at most one settlement, and an ordered list of
  listeners that run in attachment order on settlement.
\<close>

record request_obj =
  method_tag :: request_method
  listeners :: "listener list"
  settled :: "outcome option"

record world =
  thread :: thread
  heap :: heap
  requests :: "request_obj list"
  timers :: "(nat \<times> task) list"
  pending_tx :: "tx_fn list"
  trace :: "event list"

definition new_world :: "thread \<Rightarrow> world" where
  "new_world t = \<lparr>thread = t, heap = [], requests = [], timers = [], pending_tx = [], trace = []\<rparr>"

subsection \<open>The methods\<close>

text \<open>\<open>getTxNo\<close>, \<open>getQueueNo\<close>.\<close>

definition getTxNo :: "thread \<Rightarrow> nat" where
  "getTxNo t = tx_no t"

definition getQueueNo :: "thread \<Rightarrow> nat" where
  "getQueueNo t = q_no t"

text \<open>
  \<open>onGenTxCommitted_(type, e)\<close>. The call \<open>this.gen_req_.setDbValue(...)\<close> is a
  \<open>TypeError\<close> when \<open>gen_req_\<close> is still \<open>null\<close>.
\<close>

definition onGenTxCommitted :: "world \<Rightarrow> TxEventTypes \<Rightarrow> val \<Rightarrow> error + world" where
  "onGenTxCommitted w type e =
     (let done = (type = COMPLETE \<or> type = ABORT) in
      if done \<and> \<not> break_tx (thread w) then
        (let success = (type = COMPLETE) in
         case gen_req (thread w) of
           None \<Rightarrow> Inl TypeError
         | Some req \<Rightarrow>
             Inr (w\<lparr>trace := trace w @ [SetDbValue req (getTxNo (thread w)) (\<not> success)]\<rparr>))
      else Inr w)"

text \<open>
  \<open>setGenerator(gen, req)\<close>, with assertions enabled: \<open>goog.asserts.assert\<close> throws when
  \<open>generator_\<close> holds a function. The function returned is \<open>onGenTxCommitted_\<close> bound to
  this thread.
\<close>

definition setGenerator ::
  "world \<Rightarrow> gen_id \<Rightarrow> req_id \<Rightarrow> error + (world \<times> (world \<Rightarrow> TxEventTypes \<Rightarrow> val \<Rightarrow> error + world))" where
  "setGenerator w gen req =
     (case generator (thread w) of
        GenObj g \<Rightarrow> Inl (AssertionError ''thread can have only one generator'')
      | _ \<Rightarrow> Inr (w\<lparr>thread := (thread w)\<lparr>generator := GenObj gen, gen_req := Some req\<rparr>\<rparr>,
                 onGenTxCommitted))"

text \<open>\<open>commit()\<close>.\<close>

definition commit :: "world \<Rightarrow> error + world" where
  "commit w =
     (case generator (thread w) of
        GenUndefined \<Rightarrow>
          Inl (InvalidOperationException ''Transaction thread not running in a generator'')
      | GenObj g \<Rightarrow> Inr (w\<lparr>thread := (thread w)\<lparr>break_tx := True\<rparr>\<rparr>)
      | GenNull \<Rightarrow>
          Inl (InvalidOperationException ''Coroutine transaction thread has been ended''))"

text \<open>\<open>this.generator_['next'](x)\<close>: a \<open>TypeError\<close> unless a generator is stored.\<close>

definition generator_next :: "world \<Rightarrow> val \<Rightarrow> error + world" where
  "generator_next w x =
     (case generator (thread w) of
        GenObj g \<Rightarrow> Inr (w\<lparr>trace := trace w @ [GenNext g x]\<rparr>)
      | _ \<Rightarrow> Inl TypeError)"

text \<open>
  \<open>sendNext_(x)\<close>. With the flag set it clears the flag and hands a task to
  \<open>setTimeout\<close> with a delay of 4; otherwise it resumes the generator at once.
\<close>

definition sendNext :: "world \<Rightarrow> val \<Rightarrow> error + world" where
  "sendNext w x =
     (if break_tx (thread w) then
        Inr (w\<lparr>thread := (thread w)\<lparr>break_tx := False\<rparr>, timers := timers w @ [(4, ReopenTx x)]\<rparr>)
      else generator_next w x)"

text \<open>
  Modelled from the spec: \<open>processTx\<close> is abstract in the base class and its
  implementations are not among the sources. It opens a new transaction for the given
  scope, which increments the transaction number and resets the request number to 0, and
  it invokes \<open>fn\<close> once the new transaction is active.
\<close>

definition processTx ::
  "world \<Rightarrow> tx_fn \<Rightarrow> string list option \<Rightarrow> TransactionMode option \<Rightarrow> tx_handler \<Rightarrow> error + world" where
  "processTx w trFn store_names opt_mode opt_oncompleted =
     Inr (w\<lparr>thread := (thread w)\<lparr>tx_no := tx_no (thread w) + 1, r_no := 0\<rparr>,
            pending_tx := pending_tx w @ [trFn],
            trace := trace w @ [OpenTx store_names opt_mode opt_oncompleted]\<rparr>)"

text \<open>The body of the task: the call of \<open>processTx\<close> with the thread's own scope.\<close>

fun run_task :: "world \<Rightarrow> task \<Rightarrow> error + world" where
  "run_task w (ReopenTx x) =
     processTx w (ResumeFn x) (scope_store_names (thread w)) (scope_mode (thread w))
       Handler_onGenTxCommitted"

text \<open>The body of the function given to \<open>processTx\<close>, run with the new transaction.\<close>

fun run_tx_fn :: "world \<Rightarrow> tx_fn \<Rightarrow> error + world" where
  "run_tx_fn w (ResumeFn x) = generator_next w x"

text \<open>The two callbacks of \<open>request\<close>.\<close>

definition request_callback :: "world \<Rightarrow> val \<Rightarrow> error + world" where
  "request_callback w x = sendNext w x"

definition request_errback :: "world \<Rightarrow> val \<Rightarrow> error + world" where
  "request_errback w e =
     (if \<not> instanceof_Error (heap w) e then
        (let (h, a) = new_Error (heap w);
             err = Ref a;
             h' = set_prop h a ''error'' e
         in sendNext (w\<lparr>heap := h'\<rparr>) err)
      else sendNext w e)"

text \<open>
  \<open>request(method, store_names, opt_mode, opt_oncompleted)\<close>: the new request is stored
  at the first unused index, which is the handle returned.
\<close>

definition request ::
  "world \<Rightarrow> request_method \<Rightarrow> string list \<Rightarrow> TransactionMode option \<Rightarrow> tx_handler option \<Rightarrow> world \<times> req_id" where
  "request w meth store_names opt_mode opt_oncompleted =
     (let req = \<lparr>method_tag = meth, listeners = [], settled = None\<rparr>;
          req' = (case generator (thread w) of
                    GenObj g \<Rightarrow> req\<lparr>listeners := listeners req @ [ThreadCallbacks]\<rparr>
                  | _ \<Rightarrow> req)
      in (w\<lparr>requests := requests w @ [req']\<rparr>, length (requests w)))"

text \<open>Settlement of a pending operation (part of the model of \<open>ydn.db.Request\<close> above).\<close>

fun run_listener :: "world \<Rightarrow> listener \<Rightarrow> outcome \<Rightarrow> error + world" where
  "run_listener w ThreadCallbacks (Success x) = request_callback w x"
| "run_listener w ThreadCallbacks (Failure e) = request_errback w e"

fun run_listeners :: "world \<Rightarrow> listener list \<Rightarrow> outcome \<Rightarrow> error + world" where
  "run_listeners w [] out = Inr w"
| "run_listeners w (l # ls) out =
     (case run_listener w l out of Inl e \<Rightarrow> Inl e | Inr w' \<Rightarrow> run_listeners w' ls out)"

definition settle :: "world \<Rightarrow> req_id \<Rightarrow> outcome \<Rightarrow> error + world" where
  "settle w rid out =
     (if rid < length (requests w) then
        (let r = requests w ! rid in
         case settled r of
           Some _ \<Rightarrow> Inl AlreadySettled
         | None \<Rightarrow>
             run_listeners (w\<lparr>requests := (requests w)[rid := r\<lparr>settled := Some out\<rparr>]\<rparr>)
               (listeners r) out)
      else Inl NoSuchRequest)"

text \<open>
  The conversion of a number to a string that \<open>+\<close> applies, for the non-negative
  integers the two counters hold: the decimal digits, most significant first. (A
  JavaScript number prints so below \<open>10^21\<close>; the counters start at 0 and grow by 1.)
\<close>

fun number_toString :: "nat \<Rightarrow> string" where
  "number_toString n =
     (if n < 10 then [''0123456789'' ! n]
      else number_toString (n div 10) @ [''0123456789'' ! (n mod 10)])"

declare number_toString.simps [simp del]

text \<open>\<open>getLabel\<close>: \<open>'B' + this.q_no_ + 'T' + this.tx_no_\<close>.\<close>

definition getLabel :: "thread \<Rightarrow> string" where
  "getLabel t = ((''B'' @ number_toString (q_no t)) @ ''T'') @ number_toString (tx_no t)"

subsection \<open>The static abort\<close>

text \<open>
  A transaction handle as \<open>ydn.db.tr.Thread.abort\<close> sees it: whether \<open>tx.abort\<close> and
  \<open>tx.executeSql\<close> are functions. No handle (\<open>null\<close>) is \<open>None\<close>.
\<close>

record tx_handle =
  has_abort :: bool
  has_executeSql :: bool

text \<open>The error callback given to \<open>executeSql\<close>; it returns true, which rolls back.\<close>

definition error_callback :: "val \<Rightarrow> val \<Rightarrow> bool" where
  "error_callback tr error = True"

text \<open>The call made on the handle.\<close>

datatype tx_call =
    Call_abort
  | Call_executeSql string "val list" val "val \<Rightarrow> val \<Rightarrow> bool"

definition Thread_abort :: "tx_handle option \<Rightarrow> error + tx_call" where
  "Thread_abort tx =
     (case tx of
        Some h \<Rightarrow>
          (if has_abort h then Inr Call_abort
           else if has_executeSql h then Inr (Call_executeSql ''ABORT'' [] Null error_callback)
           else Inl NotSupportedException)
      | None \<Rightarrow> Inl (InvalidStateError ''No active transaction''))"

subsection \<open>The life of a thread\<close>

text \<open>
  What can happen to a thread: its public methods are called, the callback returned by
  \<open>setGenerator\<close> is invoked, a request is settled, the oldest timer fires, the oldest
  transaction that was opened becomes active. Resuming the generator runs client code;
  the call of \<open>next\<close> is the last statement on every path of the source that makes it, so
  what that code does to the thread is a later operation of the run.
\<close>

datatype op =
    Op_setGenerator gen_id req_id
  | Op_txEvent TxEventTypes val
  | Op_commit
  | Op_request request_method "string list" "TransactionMode option" "tx_handler option"
  | Op_settle req_id outcome
  | Op_timer
  | Op_txActive

fun step :: "world \<Rightarrow> op \<Rightarrow> error + world" where
  "step w (Op_setGenerator gen req) =
     (case setGenerator w gen req of Inl e \<Rightarrow> Inl e | Inr (w', cb) \<Rightarrow> Inr w')"
| "step w (Op_txEvent type e) = onGenTxCommitted w type e"
| "step w Op_commit = commit w"
| "step w (Op_request m names mode h) = Inr (fst (request w m names mode h))"
| "step w (Op_settle rid out) = settle w rid out"
| "step w Op_timer =
     (case timers w of
        [] \<Rightarrow> Inr w
      | (d, t) # ts \<Rightarrow> run_task (w\<lparr>timers := ts\<rparr>) t)"
| "step w Op_txActive =
     (case pending_tx w of
        [] \<Rightarrow> Inr w
      | f # fs \<Rightarrow> run_tx_fn (w\<lparr>pending_tx := fs\<rparr>) f)"

text \<open>An operation that throws leaves the world as it was.\<close>

definition apply_op :: "world \<Rightarrow> op \<Rightarrow> world" where
  "apply_op w a = (case step w a of Inl e \<Rightarrow> w | Inr w' \<Rightarrow> w')"

fun run :: "world \<Rightarrow> op list \<Rightarrow> world" where
  "run w [] = w"
| "run w (a # as) = run (apply_op w a) as"

subsection \<open>Observations on a run\<close>

text \<open>The calls in the trace that open a transaction, and how many a world has seen.\<close>

fun is_OpenTx :: "event \<Rightarrow> bool" where
  "is_OpenTx (OpenTx names mode h) = True"
| "is_OpenTx _ = False"

definition opened :: "world \<Rightarrow> nat" where
  "opened w = length (filter is_OpenTx (trace w))"

text \<open>The operations that call \<open>setGenerator\<close>.\<close>

fun is_setGenerator :: "op \<Rightarrow> bool" where
  "is_setGenerator (Op_setGenerator gen req) = True"
| "is_setGenerator _ = False"

text \<open>An operation binds a generator when it is a \<open>setGenerator\<close> that does not throw.\<close>

definition is_bind :: "world \<Rightarrow> op \<Rightarrow> bool" where
  "is_bind w a =
     (case a of
        Op_setGenerator gen req \<Rightarrow> (case step w a of Inr w' \<Rightarrow> True | Inl e \<Rightarrow> False)
      | _ \<Rightarrow> False)"

text \<open>How many operations of a run bind a generator.\<close>

fun bind_count :: "world \<Rightarrow> op list \<Rightarrow> nat" where
  "bind_count w [] = 0"
| "bind_count w (a # as) = (if is_bind w a then 1 else 0) + bind_count (apply_op w a) as"

text \<open>A thread as constructed for queue 1 with the scope \<open>{orders}\<close>, read-write.\<close>

definition world0 :: world where
  "world0 = new_world (Thread 0 1 None (Some [''orders'']) (Some READ_WRITE) None)"

text \<open>The operation in which \<open>processTx\<close> is called: a timer firing with a task waiting.\<close>

definition opens_tx :: "world \<Rightarrow> op \<Rightarrow> bool" where
  "opens_tx w a = (a = Op_timer \<and> timers w \<noteq> [])"

text \<open>The same thread after \<open>setGenerator(5, 9)\<close>.\<close>

definition world1 :: world where
  "world1 = world0\<lparr>thread := (thread world0)\<lparr>generator := GenObj 5, gen_req := Some 9\<rparr>\<rparr>"

text \<open>
  The thread in its first transaction, two requests made, after \<open>commit()\<close>: the counters
  are as a subclass leaves them.
\<close>

definition world2 :: world where
  "world2 = world1\<lparr>thread := (thread world1)\<lparr>tx_no := 1, r_no := 2, break_tx := True\<rparr>\<rparr>"

text \<open>The bound thread with one \<open>Error\<close> object on the heap.\<close>

definition world3 :: world where
  "world3 = world1\<lparr>heap := [\<lparr>is_Error = True, props = [''message'' \<mapsto> Str ''quota exceeded'']\<rparr>]\<rparr>"

text \<open>
  A thread that has opened three transactions and holds no generator, and the same
  thread after \<open>setGenerator(5, 9)\<close>.
\<close>

definition world4 :: world where
  "world4 = world0\<lparr>thread := (thread world0)\<lparr>tx_no := 3, r_no := 1\<rparr>\<rparr>"

definition world5 :: world where
  "world5 = world4\<lparr>thread := (thread world4)\<lparr>generator := GenObj 5, gen_req := Some 9\<rparr>\<rparr>"

section \<open>Properties\<close>

subsection \<open>What each operation changes\<close>

lemma generator_next_thread: "generator_next w x = Inr w' \<Longrightarrow> thread w' = thread w"
  by (auto simp: generator_next_def split: generator_slot.splits)

lemma sendNext_thread:
  "sendNext w x = Inr w' \<Longrightarrow> thread w' = (thread w)\<lparr>break_tx := False\<rparr>"
  by (auto simp: sendNext_def split: if_splits dest: generator_next_thread)

lemma request_errback_thread:
  "request_errback w e = Inr w' \<Longrightarrow> thread w' = (thread w)\<lparr>break_tx := False\<rparr>"
  by (auto simp: request_errback_def Let_def split: if_splits prod.splits dest: sendNext_thread)

lemma run_listener_thread:
  "run_listener w l out = Inr w' \<Longrightarrow> thread w' = (thread w)\<lparr>break_tx := False\<rparr>"
  by (cases l; cases out)
     (auto simp: request_callback_def dest: sendNext_thread request_errback_thread)

lemma run_listeners_thread:
  "run_listeners w ls out = Inr w' \<Longrightarrow>
     thread w' = thread w \<or> thread w' = (thread w)\<lparr>break_tx := False\<rparr>"
proof (induction ls arbitrary: w)
  case Nil
  then show ?case by simp
next
  case (Cons l ls)
  then obtain w1 where l: "run_listener w l out = Inr w1" and r: "run_listeners w1 ls out = Inr w'"
    by (auto split: sum.splits)
  from Cons.IH [OF r] run_listener_thread [OF l] show ?case by auto
qed

lemma settle_thread:
  "settle w rid out = Inr w' \<Longrightarrow>
     thread w' = thread w \<or> thread w' = (thread w)\<lparr>break_tx := False\<rparr>"
  by (auto simp: settle_def Let_def split: if_splits option.splits dest!: run_listeners_thread)

lemma step_cases:
  assumes "step w a = Inr w'"
  shows "(\<exists>gen req. a = Op_setGenerator gen req \<and> (\<forall>g. generator (thread w) \<noteq> GenObj g) \<and>
            thread w' = (thread w)\<lparr>generator := GenObj gen, gen_req := Some req\<rparr>)
         \<or> (a = Op_timer \<and> timers w \<noteq> [] \<and>
            thread w' = (thread w)\<lparr>tx_no := tx_no (thread w) + 1, r_no := 0\<rparr>)
         \<or> ((\<forall>gen req. a \<noteq> Op_setGenerator gen req) \<and> (a = Op_timer \<longrightarrow> timers w = []) \<and>
            (thread w' = thread w \<or> thread w' = (thread w)\<lparr>break_tx := False\<rparr>
             \<or> thread w' = (thread w)\<lparr>break_tx := True\<rparr>))"
proof (cases a)
  case (Op_setGenerator gen req)
  with assms show ?thesis
    by (auto simp: setGenerator_def split: generator_slot.splits)
next
  case (Op_txEvent ty e)
  with assms show ?thesis
    by (auto simp: onGenTxCommitted_def Let_def split: if_splits option.splits)
next
  case Op_commit
  with assms show ?thesis
    by (auto simp: commit_def split: generator_slot.splits)
next
  case (Op_request m names mode h)
  with assms show ?thesis
    by (auto simp: request_def Let_def)
next
  case (Op_settle rid out)
  with assms settle_thread [of w rid out w'] show ?thesis by auto
next
  case Op_timer
  show ?thesis
  proof (cases "timers w")
    case Nil
    with Op_timer assms show ?thesis by auto
  next
    case (Cons p ts)
    obtain d t where p: "p = (d, t)" by (cases p)
    obtain x where t: "t = ReopenTx x" by (cases t)
    from Op_timer assms Cons p t show ?thesis
      by (auto simp: processTx_def)
  qed
next
  case Op_txActive
  show ?thesis
  proof (cases "pending_tx w")
    case Nil
    with Op_txActive assms show ?thesis by auto
  next
    case (Cons f fs)
    obtain x where f: "f = ResumeFn x" by (cases f)
    from Op_txActive assms Cons f show ?thesis
      by (auto dest: generator_next_thread)
  qed
qed

lemma apply_op_bound:
  assumes "generator (thread w) = GenObj g"
  shows "generator (thread (apply_op w a)) = GenObj g \<and> gen_req (thread (apply_op w a)) = gen_req (thread w)"
proof (cases "step w a")
  case (Inl e)
  with assms show ?thesis by (simp add: apply_op_def)
next
  case (Inr w')
  from step_cases [OF Inr] assms Inr show ?thesis
    by (auto simp: apply_op_def)
qed

lemma run_bound:
  "generator (thread w) = GenObj g \<Longrightarrow>
     generator (thread (run w ops)) = GenObj g \<and> gen_req (thread (run w ops)) = gen_req (thread w)"
proof (induction ops arbitrary: w)
  case Nil
  then show ?case by simp
next
  case (Cons a ops)
  from apply_op_bound [OF Cons.prems, of a] Cons.IH [of "apply_op w a"] show ?case by simp
qed

lemma setGenerator_Inr:
  "setGenerator w gen req = Inr (w1, cb) \<Longrightarrow>
     cb = onGenTxCommitted \<and> generator (thread w1) = GenObj gen \<and> gen_req (thread w1) = Some req"
  by (auto simp: setGenerator_def split: generator_slot.splits)

lemma bind_count_bound:
  "generator (thread w) = GenObj g \<Longrightarrow> bind_count w ops = 0"
proof (induction ops arbitrary: w)
  case Nil
  then show ?case by simp
next
  case (Cons a ops)
  have "\<not> is_bind w a"
    using Cons.prems by (auto simp: is_bind_def setGenerator_def split: op.splits)
  moreover have "bind_count (apply_op w a) ops = 0"
    using apply_op_bound [OF Cons.prems, of a] Cons.IH by simp
  ultimately show ?case by simp
qed

lemma is_bind_bound:
  assumes "is_bind w a"
  shows "\<exists>g. generator (thread (apply_op w a)) = GenObj g"
proof -
  from assms obtain gen req w' where a: "a = Op_setGenerator gen req" and s: "step w a = Inr w'"
    by (auto simp: is_bind_def split: op.splits sum.splits)
  from s a have "generator (thread w') = GenObj gen"
    by (auto simp: setGenerator_def split: generator_slot.splits)
  with s show ?thesis by (simp add: apply_op_def)
qed

lemma bind_count_le: "bind_count w ops \<le> 1"
proof (induction ops arbitrary: w)
  case Nil
  then show ?case by simp
next
  case (Cons a ops)
  show ?case
  proof (cases "is_bind w a")
    case True
    from is_bind_bound [OF True] obtain g where "generator (thread (apply_op w a)) = GenObj g" ..
    then have "bind_count (apply_op w a) ops = 0" by (rule bind_count_bound)
    with True show ?thesis by simp
  next
    case False
    with Cons.IH [of "apply_op w a"] show ?thesis by simp
  qed
qed

lemma generator_next_opened: "generator_next w x = Inr w' \<Longrightarrow> opened w' = opened w"
  by (auto simp: generator_next_def opened_def split: generator_slot.splits)

lemma sendNext_opened: "sendNext w x = Inr w' \<Longrightarrow> opened w' = opened w"
  by (auto simp: sendNext_def opened_def split: if_splits dest: generator_next_opened)

lemma request_errback_opened: "request_errback w e = Inr w' \<Longrightarrow> opened w' = opened w"
  by (auto simp: request_errback_def Let_def opened_def split: if_splits prod.splits
      dest!: sendNext_opened)

lemma run_listener_opened: "run_listener w l out = Inr w' \<Longrightarrow> opened w' = opened w"
  by (cases l; cases out)
     (auto simp: request_callback_def dest: sendNext_opened request_errback_opened)

lemma run_listeners_opened: "run_listeners w ls out = Inr w' \<Longrightarrow> opened w' = opened w"
proof (induction ls arbitrary: w)
  case Nil
  then show ?case by simp
next
  case (Cons l ls)
  then obtain w1 where l: "run_listener w l out = Inr w1" and r: "run_listeners w1 ls out = Inr w'"
    by (auto split: sum.splits)
  from Cons.IH [OF r] run_listener_opened [OF l] show ?case by simp
qed

lemma settle_opened: "settle w rid out = Inr w' \<Longrightarrow> opened w' = opened w"
  by (auto simp: settle_def Let_def opened_def split: if_splits option.splits
      dest!: run_listeners_opened)

lemma step_opened:
  assumes "step w a = Inr w'"
  shows "opened w' = opened w + (if opens_tx w a then 1 else 0)"
proof (cases a)
  case (Op_setGenerator gen req)
  with assms show ?thesis
    by (auto simp: setGenerator_def opened_def opens_tx_def split: generator_slot.splits)
next
  case (Op_txEvent ty e)
  with assms show ?thesis
    by (auto simp: onGenTxCommitted_def Let_def opened_def opens_tx_def split: if_splits option.splits)
next
  case Op_commit
  with assms show ?thesis
    by (auto simp: commit_def opened_def opens_tx_def split: generator_slot.splits)
next
  case (Op_request m names mode h)
  with assms show ?thesis
    by (auto simp: request_def Let_def opened_def opens_tx_def)
next
  case (Op_settle rid out)
  with assms settle_opened [of w rid out w'] show ?thesis by (simp add: opens_tx_def)
next
  case Op_timer
  show ?thesis
  proof (cases "timers w")
    case Nil
    with Op_timer assms show ?thesis by (auto simp: opens_tx_def)
  next
    case (Cons p ts)
    obtain d t where p: "p = (d, t)" by (cases p)
    obtain x where t: "t = ReopenTx x" by (cases t)
    from Op_timer assms Cons p t show ?thesis
      by (auto simp: processTx_def opened_def opens_tx_def)
  qed
next
  case Op_txActive
  show ?thesis
  proof (cases "pending_tx w")
    case Nil
    with Op_txActive assms show ?thesis by (auto simp: opens_tx_def)
  next
    case (Cons f fs)
    obtain x where f: "f = ResumeFn x" by (cases f)
    from Op_txActive assms Cons f generator_next_opened [of "w\<lparr>pending_tx := fs\<rparr>" x w']
    show ?thesis
      by (auto simp: opens_tx_def opened_def)
  qed
qed

lemma step_counters:
  assumes "step w a = Inr w'"
  shows "if opens_tx w a
         then tx_no (thread w') = tx_no (thread w) + 1 \<and> r_no (thread w') = 0
         else tx_no (thread w') = tx_no (thread w) \<and> r_no (thread w') = r_no (thread w)"
  using step_cases [OF assms] by (auto simp: opens_tx_def)

lemma apply_op_counters:
  "tx_no (thread (apply_op w a)) + opened w = tx_no (thread w) + opened (apply_op w a)"
proof (cases "step w a")
  case (Inl e)
  then show ?thesis by (simp add: apply_op_def)
next
  case (Inr w')
  from step_counters [OF Inr] step_opened [OF Inr] Inr show ?thesis
    by (auto simp: apply_op_def split: if_splits)
qed

lemma run_counters:
  "tx_no (thread (run w ops)) + opened w = tx_no (thread w) + opened (run w ops)"
proof (induction ops arbitrary: w)
  case Nil
  then show ?case by simp
next
  case (Cons a ops)
  from Cons.IH [of "apply_op w a"] apply_op_counters [of w a] show ?case by simp
qed


lemma apply_op_scope:
  "scope_store_names (thread (apply_op w a)) = scope_store_names (thread w)
   \<and> scope_mode (thread (apply_op w a)) = scope_mode (thread w)
   \<and> q_no (thread (apply_op w a)) = q_no (thread w)"
proof (cases "step w a")
  case (Inl e)
  then show ?thesis by (simp add: apply_op_def)
next
  case (Inr w')
  from step_cases [OF Inr] Inr show ?thesis
    by (auto simp: apply_op_def)
qed

lemma run_scope:
  "scope_store_names (thread (run w ops)) = scope_store_names (thread w)
   \<and> scope_mode (thread (run w ops)) = scope_mode (thread w)
   \<and> q_no (thread (run w ops)) = q_no (thread w)"
proof (induction ops arbitrary: w)
  case Nil
  then show ?case by simp
next
  case (Cons a ops)
  from Cons.IH [of "apply_op w a"] apply_op_scope [of w a] show ?case by simp
qed

lemma apply_op_unbound:
  assumes "\<not> is_setGenerator a"
  shows "generator (thread (apply_op w a)) = generator (thread w)"
proof (cases "step w a")
  case (Inl e)
  then show ?thesis by (simp add: apply_op_def)
next
  case (Inr w')
  from step_cases [OF Inr] assms Inr show ?thesis
    by (auto simp: apply_op_def)
qed

lemma run_unbound:
  "list_all (\<lambda>a. \<not> is_setGenerator a) ops \<Longrightarrow>
     generator (thread (run w ops)) = generator (thread w)"
proof (induction ops arbitrary: w)
  case Nil
  then show ?case by simp
next
  case (Cons a ops)
  then show ?case by (simp add: apply_op_unbound)
qed

subsection \<open>Decimal digits\<close>

lemma digit_inj:
  assumes "a < 10" "b < 10" "''0123456789'' ! a = ''0123456789'' ! b"
  shows "a = (b::nat)"
proof -
  have "distinct ''0123456789''" by simp
  moreover have "a < length ''0123456789''" "b < length ''0123456789''" using assms by simp_all
  ultimately show ?thesis using assms(3) by (simp only: nth_eq_iff_index_eq)
qed

lemma digit_not_T:
  assumes "a < (10::nat)"
  shows "''0123456789'' ! a \<noteq> CHR ''T''"
proof -
  have "''0123456789'' ! a \<in> set ''0123456789''"
    using assms by (intro nth_mem) simp
  then show ?thesis by auto
qed

lemma number_toString_not_Nil: "number_toString n \<noteq> []"
  by (subst number_toString.simps) simp

lemma number_toString_no_T: "CHR ''T'' \<notin> set (number_toString n)"
proof (induction n rule: number_toString.induct)
  case (1 n)
  show ?case
  proof (cases "n < 10")
    case True
    then show ?thesis
      using digit_not_T [of n] by (subst number_toString.simps) auto
  next
    case False
    then show ?thesis
      using "1" digit_not_T [of "n mod 10"] by (subst number_toString.simps) auto
  qed
qed

lemma number_toString_inj: "number_toString m = number_toString n \<Longrightarrow> m = n"
proof (induction m arbitrary: n rule: number_toString.induct)
  case (1 m)
  show ?case
  proof (cases "m < 10")
    case m: True
    show ?thesis
    proof (cases "n < 10")
      case True
      with m "1.prems" show ?thesis
        by (simp add: number_toString.simps [of m] number_toString.simps [of n] digit_inj)
    next
      case False
      with m "1.prems" number_toString_not_Nil [of "n div 10"] show ?thesis
        by (simp add: number_toString.simps [of m] number_toString.simps [of n] Cons_eq_append_conv)
    qed
  next
    case m: False
    show ?thesis
    proof (cases "n < 10")
      case True
      with m "1.prems" number_toString_not_Nil [of "m div 10"] show ?thesis
        by (simp add: number_toString.simps [of m] number_toString.simps [of n] append_eq_Cons_conv)
    next
      case False
      with m "1.prems" have q: "number_toString (m div 10) = number_toString (n div 10)"
        and r: "''0123456789'' ! (m mod 10) = ''0123456789'' ! (n mod 10)"
        by (simp_all add: number_toString.simps [of m] number_toString.simps [of n])
      from "1.IH" [OF m q] have "m div 10 = n div 10" .
      moreover from r have "m mod 10 = n mod 10" by (intro digit_inj) simp_all
      ultimately show ?thesis by (metis div_mult_mod_eq)
    qed
  qed
qed

subsection \<open>Requests and their settlement\<close>

lemma request_result:
  "request w m names mode h =
     (w\<lparr>requests := requests w @
          [\<lparr>method_tag = m,
            listeners = (case generator (thread w) of GenObj g \<Rightarrow> [ThreadCallbacks] | _ \<Rightarrow> []),
            settled = None\<rparr>]\<rparr>,
      length (requests w))"
  by (simp add: request_def Let_def split: generator_slot.splits)

lemma run_listeners_single: "run_listeners w [l] out = run_listener w l out"
  by (simp split: sum.splits)

lemma settle_fresh_request:
  assumes "request w m names mode h = (w1, rid)" and "generator (thread w) = GenObj g"
  shows "settle w1 rid out =
     run_listener (w1\<lparr>requests := (requests w1)[rid := (requests w1 ! rid)\<lparr>settled := Some out\<rparr>]\<rparr>)
       ThreadCallbacks out"
  using assms
  by (simp add: request_result settle_def run_listeners_single del: run_listeners.simps(2))
     (auto simp: run_listeners_single simp del: run_listeners.simps(2))

lemma instanceof_Error_Ref:
  "instanceof_Error h e \<Longrightarrow> \<exists>a. e = Ref a \<and> a < length h \<and> is_Error (h ! a)"
  by (auto simp: instanceof_Error_def split: val.splits)

lemma request_errback_wraps:
  assumes "\<not> instanceof_Error (heap w) e"
  shows "request_errback w e =
     sendNext (w\<lparr>heap := heap w @ [\<lparr>is_Error = True, props = [''error'' \<mapsto> e]\<rparr>]\<rparr>)
       (Ref (length (heap w)))"
  using assms by (simp add: request_errback_def new_Error_def set_prop_def)

lemma request_errback_passes:
  assumes "instanceof_Error (heap w) e"
  shows "request_errback w e = sendNext w e"
  using assms by (simp add: request_errback_def)

lemma world0_fields:
  "generator (thread world0) = GenUndefined" "trace world0 = []" "timers world0 = []"
  "requests world0 = []"
  by (simp_all add: world0_def new_world_def Thread_def)

lemma world1_fields:
  "generator (thread world1) = GenObj 5" "\<not> break_tx (thread world1)" "trace world1 = []"
  "timers world1 = []" "heap world1 = []" "requests world1 = []"
  by (simp_all add: world1_def world0_def new_world_def Thread_def)

lemma world3_fields:
  "generator (thread world3) = GenObj 5" "\<not> break_tx (thread world3)" "trace world3 = []"
  "timers world3 = []" "requests world3 = []"
  "heap world3 = [\<lparr>is_Error = True, props = [''message'' \<mapsto> Str ''quota exceeded'']\<rparr>]"
  by (simp_all add: world3_def world1_fields)

section \<open>The claims\<close>

text \<open>
  C4. \<open>commit()\<close> throws an invalid-operation error when no generator was ever stored:
  on a thread whose \<open>generator\<close> is \<open>undefined\<close>, which is every state a new thread reaches
  by operations other than \<open>setGenerator\<close>. It throws an invalid-operation error with a
  different message when \<open>generator\<close> is \<open>null\<close> (the coroutine has ended), and
  otherwise changes nothing but the flag \<open>break_tx\<close>, which it sets.
\<close>

theorem commit_cases:
  "(generator (thread w) = GenUndefined \<longrightarrow>
      commit w = Inl (InvalidOperationException ''Transaction thread not running in a generator''))
   \<and> (list_all (\<lambda>a. \<not> is_setGenerator a) ops \<longrightarrow>
      commit (run (new_world (Thread st q pol names mode mx)) ops) =
        Inl (InvalidOperationException ''Transaction thread not running in a generator''))
   \<and> (generator (thread w) = GenNull \<longrightarrow>
      commit w = Inl (InvalidOperationException ''Coroutine transaction thread has been ended''))
   \<and> (generator (thread w) = GenObj g \<longrightarrow>
      commit w = Inr (w\<lparr>thread := (thread w)\<lparr>break_tx := True\<rparr>\<rparr>))
   \<and> InvalidOperationException ''Transaction thread not running in a generator''
       \<noteq> InvalidOperationException ''Coroutine transaction thread has been ended''"
proof -
  have "generator (thread (run (new_world (Thread st q pol names mode mx)) ops)) = GenUndefined"
    if "list_all (\<lambda>a. \<not> is_setGenerator a) ops"
    using run_unbound [OF that, of "new_world (Thread st q pol names mode mx)"]
    by (simp add: new_world_def Thread_def)
  then show ?thesis
    by (simp add: commit_def)
qed

theorem commit_cases_witness:
  "commit (new_world (Thread 0 1 None None None None)) =
     Inl (InvalidOperationException ''Transaction thread not running in a generator'')
   \<and> commit (run world0 [Op_request ''get'' [''orders''] None None, Op_settle 0 (Success Null), Op_timer]) =
     Inl (InvalidOperationException ''Transaction thread not running in a generator'')
   \<and> commit (new_world ((Thread 0 1 None None None None)\<lparr>generator := GenNull\<rparr>)) =
     Inl (InvalidOperationException ''Coroutine transaction thread has been ended'')
   \<and> commit world1 = Inr (world1\<lparr>thread := (thread world1)\<lparr>break_tx := True\<rparr>\<rparr>)"
  using commit_cases [of "new_world (Thread 0 1 None None None None)" "[]"]
    commit_cases [of _ "[Op_request ''get'' [''orders''] None None, Op_settle 0 (Success Null), Op_timer]"
       0 1 None "Some [''orders'']" "Some READ_WRITE" None]
    commit_cases [of "new_world ((Thread 0 1 None None None None)\<lparr>generator := GenNull\<rparr>)"]
    commit_cases [of world1 _ _ _ _ _ _ _ 5]
  by (simp add: new_world_def Thread_def world0_def world1_fields del: run.simps)

text \<open>
  C7. The static \<open>abort\<close>: with no handle it throws an invalid-state error; with a handle
  that has an \<open>abort\<close> function it calls it; with a handle that has no \<open>abort\<close> but an
  \<open>executeSql\<close> function it executes the statement \<open>ABORT\<close> with an error callback that
  answers true, which asks the engine to roll back; with a handle that has neither it
  throws a not-supported error.
\<close>

theorem Thread_abort_cases:
  "Thread_abort None = Inl (InvalidStateError ''No active transaction'')
   \<and> (has_abort h \<longrightarrow> Thread_abort (Some h) = Inr Call_abort)
   \<and> (\<not> has_abort h \<and> has_executeSql h \<longrightarrow>
        Thread_abort (Some h) = Inr (Call_executeSql ''ABORT'' [] Null error_callback)
        \<and> error_callback tr err)
   \<and> (\<not> has_abort h \<and> \<not> has_executeSql h \<longrightarrow> Thread_abort (Some h) = Inl NotSupportedException)"
  by (simp add: Thread_abort_def error_callback_def)

theorem Thread_abort_cases_witness:
  "Thread_abort (Some \<lparr>has_abort = True, has_executeSql = False\<rparr>) = Inr Call_abort
   \<and> Thread_abort (Some \<lparr>has_abort = True, has_executeSql = True\<rparr>) = Inr Call_abort
   \<and> Thread_abort (Some \<lparr>has_abort = False, has_executeSql = True\<rparr>) =
       Inr (Call_executeSql ''ABORT'' [] Null error_callback)
   \<and> Thread_abort (Some \<lparr>has_abort = False, has_executeSql = False\<rparr>) = Inl NotSupportedException"
  using Thread_abort_cases [of "\<lparr>has_abort = True, has_executeSql = False\<rparr>"]
    Thread_abort_cases [of "\<lparr>has_abort = True, has_executeSql = True\<rparr>"]
    Thread_abort_cases [of "\<lparr>has_abort = False, has_executeSql = True\<rparr>"]
    Thread_abort_cases [of "\<lparr>has_abort = False, has_executeSql = False\<rparr>"]
  by simp

text \<open>
  C1. Let \<open>setGenerator\<close> succeed and return the callback \<open>cb\<close>. In every later state of
  the thread, \<open>cb(type, e)\<close> with \<open>type\<close> COMPLETE or ABORT and \<open>break_tx\<close> false calls
  \<open>setDbValue\<close> on the initiating request with the thread's transaction number \<open>tx_no\<close> at
  that moment and the flag \<open>failed\<close>, which is false for COMPLETE and true for ABORT; with
  \<open>break_tx\<close> true, or any other \<open>type\<close>, it does nothing.
\<close>

theorem onGenTxCommitted_resolves:
  assumes "setGenerator w0 gen req = Inr (w1, cb)"
  shows "cb (run w1 ops) type e =
     Inr (if (type = COMPLETE \<or> type = ABORT) \<and> \<not> break_tx (thread (run w1 ops))
          then (run w1 ops)\<lparr>trace := trace (run w1 ops) @
                 [SetDbValue req (tx_no (thread (run w1 ops))) (type \<noteq> COMPLETE)]\<rparr>
          else run w1 ops)"
proof -
  from setGenerator_Inr [OF assms]
  have cb: "cb = onGenTxCommitted" and g: "generator (thread w1) = GenObj gen"
    and r: "gen_req (thread w1) = Some req" by simp_all
  from run_bound [OF g, of ops] r have "gen_req (thread (run w1 ops)) = Some req" by simp
  then show ?thesis
    by (simp add: cb onGenTxCommitted_def getTxNo_def)
qed

theorem onGenTxCommitted_resolves_witness:
  "setGenerator world4 5 9 = Inr (world5, onGenTxCommitted)
   \<and> tx_no (thread world5) = 3
   \<and> trace (projr (onGenTxCommitted (run world5 []) COMPLETE Undefined)) = [SetDbValue 9 3 False]
   \<and> trace (projr (onGenTxCommitted (run world5 []) ABORT Undefined)) = [SetDbValue 9 3 True]
   \<and> trace (projr (onGenTxCommitted (run world5 [Op_commit]) COMPLETE Undefined)) = []
   \<and> trace (projr (onGenTxCommitted (run world5 []) (OTHER ''error'') Undefined)) = []
   \<and> trace (projr (onGenTxCommitted
        (run world5 [Op_commit, Op_request ''get'' [''orders''] (Some READ_WRITE) None,
           Op_settle 0 (Success (Num 7)), Op_timer, Op_txActive])
        ABORT Undefined)) =
       [OpenTx (Some [''orders'']) (Some READ_WRITE) Handler_onGenTxCommitted, GenNext 5 (Num 7),
        SetDbValue 9 4 True]"
proof -
  let ?ops = "[Op_commit, Op_request ''get'' [''orders''] (Some READ_WRITE) None,
           Op_settle 0 (Success (Num 7)), Op_timer, Op_txActive]"
  have s: "setGenerator world4 5 9 = Inr (world5, onGenTxCommitted)"
    by (simp add: setGenerator_def world5_def world4_def world0_def new_world_def Thread_def)
  have f0: "tx_no (thread world5) = 3" "\<not> break_tx (thread world5)" "trace world5 = []"
    by (simp_all add: world5_def world4_def world0_def new_world_def Thread_def)
  have f1: "break_tx (thread (run world5 [Op_commit]))" "trace (run world5 [Op_commit]) = []"
    by (simp_all add: apply_op_def commit_def world5_def world4_def world0_def new_world_def Thread_def)
  have f2: "tx_no (thread (run world5 ?ops)) = 4" "\<not> break_tx (thread (run world5 ?ops))"
    "trace (run world5 ?ops) =
       [OpenTx (Some [''orders'']) (Some READ_WRITE) Handler_onGenTxCommitted, GenNext 5 (Num 7)]"
    by (simp_all add: apply_op_def commit_def request_def settle_def request_callback_def
        sendNext_def processTx_def generator_next_def
        world5_def world4_def world0_def new_world_def Thread_def)
  from onGenTxCommitted_resolves [OF s, of "[]" COMPLETE Undefined] f0
  have 1: "trace (projr (onGenTxCommitted (run world5 []) COMPLETE Undefined)) = [SetDbValue 9 3 False]"
    by simp
  from onGenTxCommitted_resolves [OF s, of "[]" ABORT Undefined] f0
  have 2: "trace (projr (onGenTxCommitted (run world5 []) ABORT Undefined)) = [SetDbValue 9 3 True]"
    by simp
  from onGenTxCommitted_resolves [OF s, of "[Op_commit]" COMPLETE Undefined] f1
  have 3: "trace (projr (onGenTxCommitted (run world5 [Op_commit]) COMPLETE Undefined)) = []"
    by (simp del: run.simps)
  from onGenTxCommitted_resolves [OF s, of "[]" "OTHER ''error''" Undefined] f0
  have 4: "trace (projr (onGenTxCommitted (run world5 []) (OTHER ''error'') Undefined)) = []"
    by simp
  from onGenTxCommitted_resolves [OF s, of ?ops ABORT Undefined] f2
  have 5: "trace (projr (onGenTxCommitted (run world5 ?ops) ABORT Undefined)) =
       [OpenTx (Some [''orders'']) (Some READ_WRITE) Handler_onGenTxCommitted, GenNext 5 (Num 7),
        SetDbValue 9 4 True]"
    by (simp del: run.simps)
  from s f0(1) 1 2 3 4 5 show ?thesis by blast
qed

text \<open>
  C6. \<open>setGenerator\<close> on a thread that holds a generator fails its assertion; once it has
  succeeded, it fails in every later state of the thread; and in any run of operations
  at most one \<open>setGenerator\<close> succeeds.
\<close>

theorem setGenerator_once:
  "(generator (thread w) = GenObj g \<longrightarrow>
      setGenerator w gen req = Inl (AssertionError ''thread can have only one generator''))
   \<and> (setGenerator w gen req = Inr (w1, cb) \<longrightarrow>
      setGenerator (run w1 ops) gen' req' = Inl (AssertionError ''thread can have only one generator''))
   \<and> bind_count w ops \<le> 1"
proof (intro conjI impI)
  assume "generator (thread w) = GenObj g"
  then show "setGenerator w gen req = Inl (AssertionError ''thread can have only one generator'')"
    by (simp add: setGenerator_def)
next
  assume "setGenerator w gen req = Inr (w1, cb)"
  then have "generator (thread w1) = GenObj gen" by (simp add: setGenerator_Inr)
  then have "generator (thread (run w1 ops)) = GenObj gen" by (simp add: run_bound)
  then show "setGenerator (run w1 ops) gen' req' = Inl (AssertionError ''thread can have only one generator'')"
    by (simp add: setGenerator_def)
next
  show "bind_count w ops \<le> 1" by (rule bind_count_le)
qed

theorem setGenerator_once_witness:
  "setGenerator world0 5 9 =
     Inr (world0\<lparr>thread := (thread world0)\<lparr>generator := GenObj 5, gen_req := Some 9\<rparr>\<rparr>, onGenTxCommitted)
   \<and> setGenerator (world0\<lparr>thread := (thread world0)\<lparr>generator := GenObj 5, gen_req := Some 9\<rparr>\<rparr>) 6 10 =
     Inl (AssertionError ''thread can have only one generator'')
   \<and> setGenerator (run (world0\<lparr>thread := (thread world0)\<lparr>generator := GenObj 5, gen_req := Some 9\<rparr>\<rparr>)
        [Op_commit, Op_txEvent COMPLETE Undefined]) 6 10 =
     Inl (AssertionError ''thread can have only one generator'')
   \<and> bind_count world0 [Op_setGenerator 5 9, Op_setGenerator 6 10] = 1"
proof -
  have s: "setGenerator world0 5 9 =
     Inr (world0\<lparr>thread := (thread world0)\<lparr>generator := GenObj 5, gen_req := Some 9\<rparr>\<rparr>, onGenTxCommitted)"
    by (simp add: setGenerator_def world0_def new_world_def Thread_def)
  have b: "bind_count world0 [Op_setGenerator 5 9, Op_setGenerator 6 10] = 1"
    by (simp add: is_bind_def apply_op_def setGenerator_def world0_def new_world_def Thread_def)
  show ?thesis
    using s b
      setGenerator_once [of "world0\<lparr>thread := (thread world0)\<lparr>generator := GenObj 5, gen_req := Some 9\<rparr>\<rparr>"
        5 6 10 world0 onGenTxCommitted "[]" 6 10]
      setGenerator_once [of world0 0 5 9
        "world0\<lparr>thread := (thread world0)\<lparr>generator := GenObj 5, gen_req := Some 9\<rparr>\<rparr>"
        onGenTxCommitted "[Op_commit, Op_txEvent COMPLETE Undefined]" 6 10]
    by simp
qed

text \<open>
  C2. For a thread that holds a generator and every value \<open>x\<close>: with \<open>break_tx\<close> false,
  \<open>sendNext(x)\<close> calls \<open>next(x)\<close> on the generator at once and changes nothing else. With
  \<open>break_tx\<close> true it clears the flag, makes no call, and leaves one task with
  \<open>setTimeout\<close>. Whenever that task runs later, it calls \<open>processTx\<close> with the scope the
  thread had (store names and mode) and a function that, whenever it is invoked, calls
  \<open>next(x)\<close> with the same \<open>x\<close>. With nothing else queued, the timer and then the new
  transaction becoming active add exactly the opening of the transaction and the call
  \<open>next(x)\<close> to the calls made.
\<close>

theorem sendNext_resume:
  assumes "generator (thread w) = GenObj g"
  shows "sendNext w x =
           Inr (if break_tx (thread w)
                then w\<lparr>thread := (thread w)\<lparr>break_tx := False\<rparr>, timers := timers w @ [(4, ReopenTx x)]\<rparr>
                else w\<lparr>trace := trace w @ [GenNext g x]\<rparr>)
         \<and> \<not> break_tx (thread (projr (sendNext w x)))
         \<and> (let w2 = run (projr (sendNext w x)) ops in
              run_task w2 (ReopenTx x) =
                Inr (w2\<lparr>thread := (thread w2)\<lparr>tx_no := tx_no (thread w2) + 1, r_no := 0\<rparr>,
                        pending_tx := pending_tx w2 @ [ResumeFn x],
                        trace := trace w2 @
                          [OpenTx (scope_store_names (thread w)) (scope_mode (thread w))
                             Handler_onGenTxCommitted]\<rparr>)
              \<and> run_tx_fn w2 (ResumeFn x) = Inr (w2\<lparr>trace := trace w2 @ [GenNext g x]\<rparr>))
         \<and> (break_tx (thread w) \<and> timers w = [] \<and> pending_tx w = [] \<longrightarrow>
              trace (run (projr (sendNext w x)) [Op_timer]) =
                trace w @ [OpenTx (scope_store_names (thread w)) (scope_mode (thread w))
                             Handler_onGenTxCommitted]
              \<and> trace (run (projr (sendNext w x)) [Op_timer, Op_txActive]) =
                trace w @ [OpenTx (scope_store_names (thread w)) (scope_mode (thread w))
                             Handler_onGenTxCommitted, GenNext g x])"
proof -
  define w1 where "w1 = (if break_tx (thread w)
                then w\<lparr>thread := (thread w)\<lparr>break_tx := False\<rparr>, timers := timers w @ [(4, ReopenTx x)]\<rparr>
                else w\<lparr>trace := trace w @ [GenNext g x]\<rparr>)"
  have s: "sendNext w x = Inr w1"
    using assms by (simp add: sendNext_def generator_next_def w1_def)
  have g1: "generator (thread w1) = GenObj g" and sc1: "scope_store_names (thread w1) = scope_store_names (thread w)"
    and sm1: "scope_mode (thread w1) = scope_mode (thread w)" and b1: "\<not> break_tx (thread w1)"
    using assms by (simp_all add: w1_def)
  define w2 where "w2 = run w1 ops"
  have g2: "generator (thread w2) = GenObj g"
    using run_bound [OF g1, of ops] by (simp add: w2_def)
  have sc2: "scope_store_names (thread w2) = scope_store_names (thread w)"
    and sm2: "scope_mode (thread w2) = scope_mode (thread w)"
    using run_scope [of w1 ops] sc1 sm1 by (simp_all add: w2_def)
  have t: "run_task w2 (ReopenTx x) =
                Inr (w2\<lparr>thread := (thread w2)\<lparr>tx_no := tx_no (thread w2) + 1, r_no := 0\<rparr>,
                        pending_tx := pending_tx w2 @ [ResumeFn x],
                        trace := trace w2 @
                          [OpenTx (scope_store_names (thread w)) (scope_mode (thread w))
                             Handler_onGenTxCommitted]\<rparr>)"
    by (simp add: processTx_def sc2 sm2)
  have f: "run_tx_fn w2 (ResumeFn x) = Inr (w2\<lparr>trace := trace w2 @ [GenNext g x]\<rparr>)"
    by (simp add: generator_next_def g2)
  have d: "trace (run w1 [Op_timer]) =
                trace w @ [OpenTx (scope_store_names (thread w)) (scope_mode (thread w))
                             Handler_onGenTxCommitted]
          \<and> trace (run w1 [Op_timer, Op_txActive]) =
                trace w @ [OpenTx (scope_store_names (thread w)) (scope_mode (thread w))
                             Handler_onGenTxCommitted, GenNext g x]"
    if "break_tx (thread w)" "timers w = []" "pending_tx w = []"
    using that assms by (simp add: w1_def apply_op_def processTx_def generator_next_def)
  have p: "projr (sendNext w x) = w1" by (simp add: s)
  have s1: "sendNext w x =
           Inr (if break_tx (thread w)
                then w\<lparr>thread := (thread w)\<lparr>break_tx := False\<rparr>, timers := timers w @ [(4, ReopenTx x)]\<rparr>
                else w\<lparr>trace := trace w @ [GenNext g x]\<rparr>)"
    unfolding s w1_def ..
  from t f have tf: "let w2 = run w1 ops in
              run_task w2 (ReopenTx x) =
                Inr (w2\<lparr>thread := (thread w2)\<lparr>tx_no := tx_no (thread w2) + 1, r_no := 0\<rparr>,
                        pending_tx := pending_tx w2 @ [ResumeFn x],
                        trace := trace w2 @
                          [OpenTx (scope_store_names (thread w)) (scope_mode (thread w))
                             Handler_onGenTxCommitted]\<rparr>)
              \<and> run_tx_fn w2 (ResumeFn x) = Inr (w2\<lparr>trace := trace w2 @ [GenNext g x]\<rparr>)"
    unfolding w2_def Let_def by (rule conjI)
  show ?thesis
    unfolding p using s1 b1 tf d by blast
qed

theorem sendNext_resume_witness:
  "sendNext world1 (Num 7) = Inr (world1\<lparr>trace := [GenNext 5 (Num 7)]\<rparr>)
   \<and> sendNext world2 (Num 7) =
       Inr (world2\<lparr>thread := (thread world2)\<lparr>break_tx := False\<rparr>, timers := [(4, ReopenTx (Num 7))]\<rparr>)
   \<and> trace (run (projr (sendNext world2 (Num 7))) [Op_timer]) =
       [OpenTx (Some [''orders'']) (Some READ_WRITE) Handler_onGenTxCommitted]
   \<and> trace (run (projr (sendNext world2 (Num 7))) [Op_timer, Op_txActive]) =
       [OpenTx (Some [''orders'']) (Some READ_WRITE) Handler_onGenTxCommitted, GenNext 5 (Num 7)]"
proof -
  have g1: "generator (thread world1) = GenObj 5" and b1: "\<not> break_tx (thread world1)"
    and t1: "trace world1 = []"
    by (simp_all add: world1_def world0_def new_world_def Thread_def)
  have g2: "generator (thread world2) = GenObj 5" and b2: "break_tx (thread world2)"
    and t2: "trace world2 = []" and q2: "timers world2 = []" "pending_tx world2 = []"
    and s2: "scope_store_names (thread world2) = Some [''orders'']"
      "scope_mode (thread world2) = Some READ_WRITE"
    by (simp_all add: world2_def world1_def world0_def new_world_def Thread_def)
  from sendNext_resume [OF g1, of "Num 7" "[]"] b1 t1
  have "sendNext world1 (Num 7) = Inr (world1\<lparr>trace := [GenNext 5 (Num 7)]\<rparr>)"
    by simp
  moreover note th = sendNext_resume [OF g2, of "Num 7" "[]"]
  from th b2 q2
  have "sendNext world2 (Num 7) =
       Inr (world2\<lparr>thread := (thread world2)\<lparr>break_tx := False\<rparr>, timers := [(4, ReopenTx (Num 7))]\<rparr>)"
    by simp
  moreover from th b2 q2
  have "trace (run (projr (sendNext world2 (Num 7))) [Op_timer]) =
          trace world2 @ [OpenTx (scope_store_names (thread world2)) (scope_mode (thread world2))
            Handler_onGenTxCommitted]
        \<and> trace (run (projr (sendNext world2 (Num 7))) [Op_timer, Op_txActive]) =
          trace world2 @ [OpenTx (scope_store_names (thread world2)) (scope_mode (thread world2))
            Handler_onGenTxCommitted, GenNext 5 (Num 7)]"
    by blast
  then have "trace (run (projr (sendNext world2 (Num 7))) [Op_timer]) =
       [OpenTx (Some [''orders'']) (Some READ_WRITE) Handler_onGenTxCommitted]
   \<and> trace (run (projr (sendNext world2 (Num 7))) [Op_timer, Op_txActive]) =
       [OpenTx (Some [''orders'']) (Some READ_WRITE) Handler_onGenTxCommitted, GenNext 5 (Num 7)]"
    unfolding t2 s2 by simp
  ultimately show ?thesis by blast
qed

text \<open>
  C3. The task that \<open>sendNext\<close> defers after a commit opens a transaction, and doing so
  adds 1 to \<open>tx_no\<close> and sets \<open>r_no\<close> to 0. Every operation of the thread that does not
  throw either opens one transaction, adds 1 to \<open>tx_no\<close> and sets \<open>r_no\<close> to 0, or opens
  none and leaves both counters as they were. Over any run, \<open>tx_no\<close> grows by the number
  of transactions opened.
\<close>

theorem new_transaction_counters:
  "(\<exists>w'. run_task w (ReopenTx x) = Inr w' \<and> opened w' = opened w + 1
       \<and> tx_no (thread w') = tx_no (thread w) + 1 \<and> r_no (thread w') = 0)
   \<and> (step w a = Inr w1 \<longrightarrow>
        (if opened w1 = opened w + 1
         then tx_no (thread w1) = tx_no (thread w) + 1 \<and> r_no (thread w1) = 0
         else opened w1 = opened w \<and> tx_no (thread w1) = tx_no (thread w) \<and> r_no (thread w1) = r_no (thread w)))
   \<and> tx_no (thread (run w ops)) + opened w = tx_no (thread w) + opened (run w ops)"
proof (intro conjI impI)
  show "\<exists>w'. run_task w (ReopenTx x) = Inr w' \<and> opened w' = opened w + 1
       \<and> tx_no (thread w') = tx_no (thread w) + 1 \<and> r_no (thread w') = 0"
    by (simp add: processTx_def opened_def)
next
  assume s: "step w a = Inr w1"
  from step_counters [OF s] step_opened [OF s]
  show "if opened w1 = opened w + 1
         then tx_no (thread w1) = tx_no (thread w) + 1 \<and> r_no (thread w1) = 0
         else opened w1 = opened w \<and> tx_no (thread w1) = tx_no (thread w) \<and> r_no (thread w1) = r_no (thread w)"
    by (auto split: if_splits)
next
  show "tx_no (thread (run w ops)) + opened w = tx_no (thread w) + opened (run w ops)"
    by (rule run_counters)
qed

theorem new_transaction_counters_witness:
  "(\<exists>w'. run_task world2 (ReopenTx (Num 7)) = Inr w' \<and> tx_no (thread w') = 2 \<and> r_no (thread w') = 0)
   \<and> r_no (thread world2) = 2
   \<and> (\<exists>w'. step (world2\<lparr>timers := [(4, ReopenTx (Num 7))]\<rparr>) Op_timer = Inr w'
         \<and> opened w' = 1 \<and> tx_no (thread w') = 2 \<and> r_no (thread w') = 0)
   \<and> (\<exists>w'. step world2 Op_commit = Inr w'
         \<and> opened w' = 0 \<and> tx_no (thread w') = 1 \<and> r_no (thread w') = 2)
   \<and> tx_no (thread (run world2 [Op_request ''get'' [''orders''] (Some READ_WRITE) None,
        Op_settle 0 (Success (Num 7)), Op_timer, Op_txActive])) = 2"
proof -
  let ?ops = "[Op_request ''get'' [''orders''] (Some READ_WRITE) None,
        Op_settle 0 (Success (Num 7)), Op_timer, Op_txActive]"
  let ?w = "world2\<lparr>timers := [(4, ReopenTx (Num 7))]\<rparr>"
  have t: "tx_no (thread world2) = 1" and r: "r_no (thread world2) = 2"
    and o: "opened world2 = 0" "opened ?w = 0"
    by (simp_all add: world2_def world1_def world0_def new_world_def Thread_def opened_def)
  have oo: "opened (run world2 ?ops) = 1"
    by (simp add: opened_def apply_op_def request_def settle_def request_callback_def sendNext_def
        processTx_def generator_next_def world2_def world1_def world0_def new_world_def Thread_def)
  note n = new_transaction_counters [of world2 "Num 7" Op_commit "world2" ?ops]
  from n have "\<exists>w'. run_task world2 (ReopenTx (Num 7)) = Inr w' \<and> opened w' = opened world2 + 1
       \<and> tx_no (thread w') = tx_no (thread world2) + 1 \<and> r_no (thread w') = 0"
    by (rule conjunct1)
  with t have 1: "\<exists>w'. run_task world2 (ReopenTx (Num 7)) = Inr w' \<and> tx_no (thread w') = 2 \<and> r_no (thread w') = 0"
    by auto
  have st: "step ?w Op_timer = Inr (projr (step ?w Op_timer))"
    by (simp add: processTx_def)
  have so: "opened (projr (step ?w Op_timer)) = opened ?w + 1"
    by (simp add: processTx_def opened_def)
  from new_transaction_counters [of ?w "Num 7" Op_timer "projr (step ?w Op_timer)" "[]"] st so
  have "tx_no (thread (projr (step ?w Op_timer))) = tx_no (thread ?w) + 1
      \<and> r_no (thread (projr (step ?w Op_timer))) = 0"
    by (simp del: step.simps)
  with st so o t have 2: "\<exists>w'. step ?w Op_timer = Inr w'
         \<and> opened w' = 1 \<and> tx_no (thread w') = 2 \<and> r_no (thread w') = 0"
    by (intro exI [of _ "projr (step ?w Op_timer)"]) (simp del: step.simps)
  have c: "step world2 Op_commit = Inr world2"
    by (simp add: commit_def world2_def world1_def)
  from n c have "opened world2 = opened world2 \<and> tx_no (thread world2) = tx_no (thread world2)
      \<and> r_no (thread world2) = r_no (thread world2)"
    by simp
  with c o t r have 3: "\<exists>w'. step world2 Op_commit = Inr w'
         \<and> opened w' = 0 \<and> tx_no (thread w') = 1 \<and> r_no (thread w') = 2"
    by (intro exI [of _ world2]) (simp del: step.simps)
  from n have "tx_no (thread (run world2 ?ops)) + opened world2 =
      tx_no (thread world2) + opened (run world2 ?ops)"
    by (rule conjunct2 [THEN conjunct2])
  with oo o t have 4: "tx_no (thread (run world2 ?ops)) = 2"
    by (simp del: run.simps)
  from 1 r 2 3 4 show ?thesis by blast
qed

text \<open>
  C8. \<open>request\<close> returns at once, with no call made and nothing deferred: the request it
  returns is new, carries the given method tag and is unsettled, and the thread is
  unchanged. The request has the thread's callbacks exactly when a generator is stored;
  then its success with a value \<open>x\<close> is \<open>sendNext(x)\<close>. With no generator stored, settling
  it only records the settlement: no call is made and the thread is unchanged.
\<close>

theorem request_wiring:
  assumes "request w m names mode h = (w1, rid)"
  shows "rid = length (requests w) \<and> length (requests w1) = Suc rid
         \<and> take rid (requests w1) = requests w
         \<and> method_tag (requests w1 ! rid) = m \<and> settled (requests w1 ! rid) = None
         \<and> thread w1 = thread w \<and> heap w1 = heap w \<and> timers w1 = timers w
         \<and> pending_tx w1 = pending_tx w \<and> trace w1 = trace w
         \<and> (listeners (requests w1 ! rid) =
               (if \<exists>g. generator (thread w) = GenObj g then [ThreadCallbacks] else []))
         \<and> ((\<exists>g. generator (thread w) = GenObj g) \<longrightarrow>
               settle w1 rid (Success x) =
                 sendNext (w1\<lparr>requests := (requests w1)[rid := (requests w1 ! rid)\<lparr>settled := Some (Success x)\<rparr>]\<rparr>) x)
         \<and> ((\<forall>g. generator (thread w) \<noteq> GenObj g) \<longrightarrow>
               settle w1 rid out =
                 Inr (w1\<lparr>requests := (requests w1)[rid := (requests w1 ! rid)\<lparr>settled := Some out\<rparr>]\<rparr>))"
proof -
  from assms have rid: "rid = length (requests w)"
    and w1: "w1 = w\<lparr>requests := requests w @
          [\<lparr>method_tag = m,
            listeners = (case generator (thread w) of GenObj g \<Rightarrow> [ThreadCallbacks] | _ \<Rightarrow> []),
            settled = None\<rparr>]\<rparr>"
    by (simp_all add: request_result)
  show ?thesis
    by (cases "generator (thread w)")
       (simp_all add: rid w1 settle_def request_callback_def run_listeners_single del: run_listeners.simps(2))
qed

theorem request_wiring_witness:
  "snd (request world1 ''get'' [''orders''] (Some READ_WRITE) None) = 0
   \<and> method_tag (requests (fst (request world1 ''get'' [''orders''] (Some READ_WRITE) None)) ! 0) = ''get''
   \<and> trace (projr (settle (fst (request world1 ''get'' [''orders''] (Some READ_WRITE) None)) 0
        (Success (Num 7)))) = [GenNext 5 (Num 7)]
   \<and> snd (request world0 ''get'' [''orders''] (Some READ_WRITE) None) = 0
   \<and> thread (projr (settle (fst (request world0 ''get'' [''orders''] (Some READ_WRITE) None)) 0
        (Success (Num 7)))) = thread world0
   \<and> trace (projr (settle (fst (request world0 ''get'' [''orders''] (Some READ_WRITE) None)) 0
        (Success (Num 7)))) = []"
proof -
  define r1 where "r1 = request world1 ''get'' [''orders''] (Some READ_WRITE) None"
  define r0 where "r0 = request world0 ''get'' [''orders''] (Some READ_WRITE) None"
  have e1: "request world1 ''get'' [''orders''] (Some READ_WRITE) None = (fst r1, snd r1)"
    and e0: "request world0 ''get'' [''orders''] (Some READ_WRITE) None = (fst r0, snd r0)"
    by (simp_all add: r1_def r0_def)
  note n1 = request_wiring [OF e1, of "Num 7" "Success (Num 7)"]
  note n0 = request_wiring [OF e0, of "Num 7" "Success (Num 7)"]
  from n1 have i1: "snd r1 = 0" and m1: "method_tag (requests (fst r1) ! 0) = ''get''"
    and t1: "thread (fst r1) = thread world1" "trace (fst r1) = trace world1"
    by (auto simp: world1_fields)
  from n1 i1 have "settle (fst r1) 0 (Success (Num 7)) =
      sendNext (fst r1\<lparr>requests := (requests (fst r1))[0 := (requests (fst r1) ! 0)\<lparr>settled := Some (Success (Num 7))\<rparr>]\<rparr>) (Num 7)"
    by (simp add: world1_fields)
  then have s1: "trace (projr (settle (fst r1) 0 (Success (Num 7)))) = [GenNext 5 (Num 7)]"
    by (simp add: sendNext_def generator_next_def t1 world1_fields)
  from n0 have i0: "snd r0 = 0" and t0: "thread (fst r0) = thread world0" "trace (fst r0) = trace world0"
    by (auto simp: world0_fields)
  from n0 i0 have "settle (fst r0) 0 (Success (Num 7)) =
      Inr (fst r0\<lparr>requests := (requests (fst r0))[0 := (requests (fst r0) ! 0)\<lparr>settled := Some (Success (Num 7))\<rparr>]\<rparr>)"
    by (simp add: world0_fields)
  then have s0: "thread (projr (settle (fst r0) 0 (Success (Num 7)))) = thread world0"
      "trace (projr (settle (fst r0) 0 (Success (Num 7)))) = []"
    by (simp_all add: t0 world0_fields)
  show ?thesis
    using i1 m1 s1 i0 s0 unfolding r1_def r0_def by blast
qed

text \<open>
  C5. On a thread that holds a generator, when a request it issued fails with a reason
  \<open>e\<close> that is not an \<open>Error\<close>, the value handed to \<open>sendNext\<close> is a new \<open>Error\<close> object
  whose property \<open>error\<close> is \<open>e\<close>: the generator is resumed with it at once, or after the
  deferred reopening when a commit is pending. The reason can be read back from it.
\<close>

theorem failure_reason_wrapped:
  assumes "request w m names mode h = (w1, rid)"
    and "generator (thread w) = GenObj g"
    and "\<not> instanceof_Error (heap w) e"
  shows "\<exists>w'. settle w1 rid (Failure e) = Inr w'
         \<and> heap w' = heap w @ [\<lparr>is_Error = True, props = [''error'' \<mapsto> e]\<rparr>]
         \<and> instanceof_Error (heap w') (Ref (length (heap w)))
         \<and> get_prop (heap w') (Ref (length (heap w))) ''error'' = Some e
         \<and> (if break_tx (thread w)
             then trace w' = trace w \<and> timers w' = timers w @ [(4, ReopenTx (Ref (length (heap w))))]
             else trace w' = trace w @ [GenNext g (Ref (length (heap w)))] \<and> timers w' = timers w)"
proof -
  from assms(1) have w1: "heap w1 = heap w" "thread w1 = thread w" "trace w1 = trace w"
    "timers w1 = timers w"
    by (auto simp: request_result)
  let ?w2 = "w1\<lparr>requests := (requests w1)[rid := (requests w1 ! rid)\<lparr>settled := Some (Failure e)\<rparr>]\<rparr>"
  have "settle w1 rid (Failure e) = request_errback ?w2 e"
    using settle_fresh_request [OF assms(1,2)] by simp
  also have "\<dots> = sendNext (?w2\<lparr>heap := heap ?w2 @ [\<lparr>is_Error = True, props = [''error'' \<mapsto> e]\<rparr>]\<rparr>)
       (Ref (length (heap ?w2)))"
    using assms(3) w1 by (intro request_errback_wraps) simp
  finally show ?thesis
    using assms(2) w1
    by (simp add: sendNext_def generator_next_def instanceof_Error_def get_prop_def)
qed

theorem failure_reason_wrapped_witness:
  "\<exists>w'. settle (fst (request world1 ''put'' [''orders''] (Some READ_WRITE) None)) 0
           (Failure (Str ''disk full'')) = Inr w'
     \<and> trace w' = [GenNext 5 (Ref 0)]
     \<and> instanceof_Error (heap w') (Ref 0)
     \<and> get_prop (heap w') (Ref 0) ''error'' = Some (Str ''disk full'')"
proof -
  have e: "request world1 ''put'' [''orders''] (Some READ_WRITE) None =
      (fst (request world1 ''put'' [''orders''] (Some READ_WRITE) None), 0)"
    by (simp add: request_result world1_fields)
  have n: "\<not> instanceof_Error (heap world1) (Str ''disk full'')"
    by (simp add: instanceof_Error_def)
  from failure_reason_wrapped [OF e world1_fields(1) n]
  show ?thesis by (auto simp: world1_fields)
qed

text \<open>
  C10. On a thread that holds a generator, when a request it issued fails with a reason
  that is an \<open>Error\<close>, the value handed to \<open>sendNext\<close> is that same reference and no object
  is created.
\<close>

theorem failure_error_unchanged:
  assumes "request w m names mode h = (w1, rid)"
    and "generator (thread w) = GenObj g"
    and "instanceof_Error (heap w) e"
  shows "\<exists>w'. settle w1 rid (Failure e) = Inr w'
         \<and> heap w' = heap w
         \<and> (if break_tx (thread w)
             then trace w' = trace w \<and> timers w' = timers w @ [(4, ReopenTx e)]
             else trace w' = trace w @ [GenNext g e] \<and> timers w' = timers w)"
proof -
  from assms(1) have w1: "heap w1 = heap w" "thread w1 = thread w" "trace w1 = trace w"
    "timers w1 = timers w"
    by (auto simp: request_result)
  let ?w2 = "w1\<lparr>requests := (requests w1)[rid := (requests w1 ! rid)\<lparr>settled := Some (Failure e)\<rparr>]\<rparr>"
  have "settle w1 rid (Failure e) = request_errback ?w2 e"
    using settle_fresh_request [OF assms(1,2)] by simp
  also have "\<dots> = sendNext ?w2 e"
    using assms(3) w1 by (intro request_errback_passes) simp
  finally show ?thesis
    using assms(2) w1
    by (simp add: sendNext_def generator_next_def)
qed

theorem failure_error_unchanged_witness:
  "\<exists>w'. settle (fst (request world3 ''put'' [''orders''] (Some READ_WRITE) None)) 0
           (Failure (Ref 0)) = Inr w'
     \<and> trace w' = [GenNext 5 (Ref 0)]
     \<and> heap w' = [\<lparr>is_Error = True, props = [''message'' \<mapsto> Str ''quota exceeded'']\<rparr>]"
proof -
  have e: "request world3 ''put'' [''orders''] (Some READ_WRITE) None =
      (fst (request world3 ''put'' [''orders''] (Some READ_WRITE) None), 0)"
    by (simp add: request_result world3_fields)
  have n: "instanceof_Error (heap world3) (Ref 0)"
    by (simp add: instanceof_Error_def world3_fields)
  from failure_error_unchanged [OF e world3_fields(1) n]
  show ?thesis by (auto simp: world3_fields)
qed

text \<open>
  C9. \<open>getLabel\<close> is the letter B, the queue number, the letter T and the transaction
  number, and two threads have the same label exactly when they agree on both numbers.
\<close>

theorem getLabel_determines:
  "getLabel t = ''B'' @ number_toString (getQueueNo t) @ ''T'' @ number_toString (getTxNo t)
   \<and> (getLabel t1 = getLabel t2 \<longleftrightarrow> getQueueNo t1 = getQueueNo t2 \<and> getTxNo t1 = getTxNo t2)"
proof -
  have "getLabel t1 = getLabel t2 \<longleftrightarrow>
      number_toString (q_no t1) @ CHR ''T'' # number_toString (tx_no t1) =
      number_toString (q_no t2) @ CHR ''T'' # number_toString (tx_no t2)"
    by (simp add: getLabel_def)
  also have "\<dots> \<longleftrightarrow> number_toString (q_no t1) = number_toString (q_no t2)
      \<and> number_toString (tx_no t1) = number_toString (tx_no t2)"
    by (rule append_Cons_eq_iff) (rule number_toString_no_T)+
  also have "\<dots> \<longleftrightarrow> q_no t1 = q_no t2 \<and> tx_no t1 = tx_no t2"
    by (auto dest: number_toString_inj)
  finally show ?thesis
    by (simp add: getLabel_def getQueueNo_def getTxNo_def)
qed

theorem getLabel_determines_witness:
  "getLabel (Thread 0 12 None None None None) = ''B12T0''
   \<and> getLabel ((Thread 0 1 None None None None)\<lparr>tx_no := 12\<rparr>) \<noteq>
       getLabel ((Thread 0 11 None None None None)\<lparr>tx_no := 2\<rparr>)"
proof -
  from getLabel_determines [of "Thread 0 12 None None None None"]
  have "getLabel (Thread 0 12 None None None None) =
      ''B'' @ number_toString (getQueueNo (Thread 0 12 None None None None)) @ ''T'' @
      number_toString (getTxNo (Thread 0 12 None None None None))"
    by (rule conjunct1)
  then have "getLabel (Thread 0 12 None None None None) = ''B12T0''"
    by (simp add: getQueueNo_def getTxNo_def Thread_def number_toString.simps)
  moreover from getLabel_determines [of _ "(Thread 0 1 None None None None)\<lparr>tx_no := 12\<rparr>"
      "(Thread 0 11 None None None None)\<lparr>tx_no := 2\<rparr>"]
  have "getLabel ((Thread 0 1 None None None None)\<lparr>tx_no := 12\<rparr>) =
       getLabel ((Thread 0 11 None None None None)\<lparr>tx_no := 2\<rparr>) \<longleftrightarrow>
     getQueueNo ((Thread 0 1 None None None None)\<lparr>tx_no := 12\<rparr>) =
       getQueueNo ((Thread 0 11 None None None None)\<lparr>tx_no := 2\<rparr>) \<and>
     getTxNo ((Thread 0 1 None None None None)\<lparr>tx_no := 12\<rparr>) =
       getTxNo ((Thread 0 11 None None None None)\<lparr>tx_no := 2\<rparr>)"
    by (rule conjunct2)
  then have "getLabel ((Thread 0 1 None None None None)\<lparr>tx_no := 12\<rparr>) \<noteq>
       getLabel ((Thread 0 11 None None None None)\<lparr>tx_no := 2\<rparr>)"
    by (simp add: getQueueNo_def getTxNo_def Thread_def)
  ultimately show ?thesis by (rule conjI)
qed

end
